theory Spec2Isabelle
  imports Complex_Main "HOL-Library.Word" "HOL-Library.Multiset"
begin

unbundle bit_operations_syntax

section \<open>Core data types (include/core/types.h)\<close>

text \<open>
  Fixed-width unsigned integers are words; \<open>std::time_t\<close> is an integer;
  \<open>std::string\<close> is a list of 8-bit characters. The score of a result and the fuzzy
  threshold of the settings are the reals they denote. The fuzzy threshold of a query,
  which \<open>isValid\<close> decides on, is a \<open>double\<close> with all its values: the numbers, the
  two infinities and NaN, under the comparison of IEEE 754, where NaN is neither less
  nor greater than anything.
\<close>

datatype double = Finite real | PosInf | NegInf | NaN

fun double_less :: "double \<Rightarrow> double \<Rightarrow> bool" where
  "double_less NaN b = False"
| "double_less a NaN = False"
| "double_less (Finite a) (Finite b) = (a < b)"
| "double_less (Finite a) PosInf = True"
| "double_less NegInf (Finite b) = True"
| "double_less NegInf PosInf = True"
| "double_less a b = False"

definition double_greater :: "double \<Rightarrow> double \<Rightarrow> bool" where
  "double_greater a b = double_less b a"

datatype FileType = Unknown | File | Directory | SymbolicLink | HardLink

datatype SearchMode = Exact | Fuzzy | Wildcard | Regex

datatype SortOrder = Name | Size | Modified | Accessed | Relevance

datatype Theme = Light | Dark | System

record SizeRange =
  minSize :: "64 word"
  maxSize :: "64 word"

record DateRange =
  startDate :: int
  endDate :: int

text \<open>
  The members \<open>includeDrives\<close>, \<open>excludePaths\<close> and \<open>fuzzyThreshold\<close> of
  \<open>SearchQuery\<close> carry the prefix \<open>q_\<close>: \<open>AppSettings\<close> has members of the same names.
\<close>

record SearchQuery =
  query :: string
  mode :: SearchMode
  q_includeDrives :: "string list"
  q_excludePaths :: "string list"
  fileTypes :: "string list"
  sizeRange :: SizeRange
  dateRange :: DateRange
  maxResults :: "32 word"
  sortOrder :: SortOrder
  caseSensitive :: bool
  q_fuzzyThreshold :: double


section \<open>SearchQuery::isValid (src/core/types.cpp)\<close>

text \<open>The method is \<open>const\<close>: it reads the query and returns a flag, nothing else.\<close>

definition isValid :: "SearchQuery \<Rightarrow> bool" where
  "isValid q =
     (if query q = [] then False
      else if maxResults q = 0 then False
      else if double_less (q_fuzzyThreshold q) (Finite 0) \<or>
              double_greater (q_fuzzyThreshold q) (Finite 1) then False
      else True)"

text \<open>
  The specification's reading of a threshold within range, for comparison: a number
  between 0 and 1. An infinity or NaN is no such number.
\<close>

definition spec_threshold_in_range :: "double \<Rightarrow> bool" where
  "spec_threshold_in_range t =
     (case t of Finite r \<Rightarrow> 0 \<le> r \<and> r \<le> 1 | PosInf \<Rightarrow> False | NegInf \<Rightarrow> False | NaN \<Rightarrow> False)"

section \<open>AppSettings::validate and AppSettings::sanitize (src/core/types.cpp)\<close>




section \<open>Character classification of the C library\<close>

text \<open>
  \<open>std::isalnum\<close>, \<open>std::isspace\<close> and \<open>::tolower\<close> in the default "C" locale, on
  8-bit characters: only ASCII letters and digits are alphanumeric, only ASCII upper-case
  letters change under \<open>tolower\<close>.
\<close>

definition isdigit_c :: "char \<Rightarrow> bool" where
  "isdigit_c c = (48 \<le> (of_char c :: nat) \<and> (of_char c :: nat) \<le> 57)"

definition isupper_c :: "char \<Rightarrow> bool" where
  "isupper_c c = (65 \<le> (of_char c :: nat) \<and> (of_char c :: nat) \<le> 90)"

definition islower_c :: "char \<Rightarrow> bool" where
  "islower_c c = (97 \<le> (of_char c :: nat) \<and> (of_char c :: nat) \<le> 122)"

definition isalnum_c :: "char \<Rightarrow> bool" where
  "isalnum_c c = (isdigit_c c \<or> isupper_c c \<or> islower_c c)"

definition isspace_c :: "char \<Rightarrow> bool" where
  "isspace_c c = ((of_char c :: nat) = 32 \<or> (9 \<le> (of_char c :: nat) \<and> (of_char c :: nat) \<le> 13))"

definition tolower_c :: "char \<Rightarrow> char" where
  "tolower_c c = (if isupper_c c then char_of ((of_char c :: nat) + 32) else c)"

section \<open>FileEntry::updateTokens (src/core/types.cpp)\<close>

text \<open>The members \<open>id\<close> and \<open>size\<close> are the fields \<open>id_f\<close> and \<open>size_f\<close>.\<close>

record FileEntry =
  id_f :: "64 word"
  fullPath :: string
  fileName :: string
  extension :: string
  size_f :: "64 word"
  lastModified :: int
  lastAccessed :: int
  type :: FileType
  attributes :: "32 word"
  normalizedName :: string
  tokens :: "string list"
  accessCount :: "32 word"
  relevanceScore :: real
  parentId :: "64 word"
  driveId :: "64 word"

text \<open>\<open>FileEntry() = default\<close>: the default member initialisers of the struct.\<close>

definition FileEntry_default :: FileEntry where
  "FileEntry_default =
     \<lparr>id_f = 0, fullPath = [], fileName = [], extension = [], size_f = 0, lastModified = 0,
      lastAccessed = 0, type = Unknown, attributes = 0, normalizedName = [], tokens = [],
      accessCount = 0, relevanceScore = 0, parentId = 0, driveId = 0\<rparr>"

text \<open>
  The body of \<open>for (char c : fileName)\<close>: one character of the name is appended to the
  name built so far, lower-cased when alphanumeric, as one space when it is one of
  \<open>. _ -\<close> or a space, and not at all otherwise.
\<close>

definition normalize_char :: "string \<Rightarrow> char \<Rightarrow> string" where
  "normalize_char acc c =
     (if isalnum_c c then acc @ [tolower_c c]
      else if c = CHR ''.'' \<or> c = CHR ''_'' \<or> c = CHR ''-'' \<or> c = CHR '' '' then acc @ [CHR '' '']
      else acc)"

fun normalize_loop :: "string \<Rightarrow> string \<Rightarrow> string" where
  "normalize_loop acc [] = acc"
| "normalize_loop acc (c # cs) = normalize_loop (normalize_char acc c) cs"

text \<open>
  \<open>while (iss >> token)\<close>: formatted extraction skips white space, then reads up to the
  next white space; \<open>cur\<close> is the token being read. An extraction that reads no
  character fails and ends the loop, so no empty token is produced.
\<close>

fun extract_tokens :: "string \<Rightarrow> string \<Rightarrow> string list" where
  "extract_tokens cur [] = (if cur = [] then [] else [cur])"
| "extract_tokens cur (c # cs) =
     (if isspace_c c then (if cur = [] then extract_tokens [] cs else cur # extract_tokens [] cs)
      else extract_tokens (cur @ [c]) cs)"

definition updateTokens :: "FileEntry \<Rightarrow> FileEntry" where
  "updateTokens e0 =
     (let e1 = e0\<lparr>tokens := [], normalizedName := []\<rparr>
      in if fileName e1 = [] then e1
         else
           let e2 = e1\<lparr>normalizedName := normalize_loop (normalizedName e1) (fileName e1)\<rparr>;
               e3 = e2\<lparr>tokens := tokens e2 @ extract_tokens [] (normalizedName e2)\<rparr>
           in if extension e3 \<noteq> [] then e3\<lparr>tokens := tokens e3 @ [map tolower_c (extension e3)]\<rparr>
              else e3)"

text \<open>
  The specification's reading of the normalised name, for comparison: a maximal run of
  the characters \<open>. _ -\<close> and space gives one space. \<open>in_run\<close> tells whether the
  previous character already belonged to such a run.
\<close>

definition is_separator :: "char \<Rightarrow> bool" where
  "is_separator c = (c = CHR ''.'' \<or> c = CHR ''_'' \<or> c = CHR ''-'' \<or> c = CHR '' '')"

fun spec_collapse :: "bool \<Rightarrow> string \<Rightarrow> string" where
  "spec_collapse in_run [] = []"
| "spec_collapse in_run (c # cs) =
     (if isalnum_c c then tolower_c c # spec_collapse False cs
      else if is_separator c then (if in_run then spec_collapse True cs else CHR '' '' # spec_collapse True cs)
      else spec_collapse in_run cs)"

definition spec_normalized_name :: "string \<Rightarrow> string" where
  "spec_normalized_name name = spec_collapse False name"

fun has_adjacent_spaces :: "string \<Rightarrow> bool" where
  "has_adjacent_spaces (a # b # cs) = ((a = CHR '' '' \<and> b = CHR '' '') \<or> has_adjacent_spaces (b # cs))"
| "has_adjacent_spaces _ = False"

section \<open>SearchResults::sortByScore (src/core/types.cpp)\<close>











section \<open>ThreadSafeQueue (include/utils/thread_safe_queue.h)\<close>

text \<open>
  The queue as one thread sees it while it holds the mutex: the \<open>std::queue\<close> (front at
  the head of the list) and the shutdown flag. A member \<open>x_\<close> of the source is the
  field \<open>x_m\<close> here and below.
\<close>

record 'a ThreadSafeQueue =
  queue_m :: "'a list"
  shutdown_m :: bool

text \<open>What a call hands back to its caller: nothing for a \<open>void\<close> method, or a \<open>bool\<close>.\<close>

datatype retval = Void | Bool bool

definition ThreadSafeQueue_new :: "'a ThreadSafeQueue" where
  "ThreadSafeQueue_new = \<lparr>queue_m = [], shutdown_m = False\<rparr>"

definition push :: "'a \<Rightarrow> 'a ThreadSafeQueue \<Rightarrow> retval \<times> 'a ThreadSafeQueue" where
  "push item q =
     (if shutdown_m q then (Void, q)
      else (Void, q\<lparr>queue_m := queue_m q @ [item]\<rparr>))"

text \<open>
  \<open>while (queue_.empty() && !shutdown_.load()) condition_.wait(lock)\<close>: with no other
  thread to push or shut down, a wait that starts never ends; not returning is \<open>None\<close>.
\<close>

partial_function (option) wait_for_item :: "'a ThreadSafeQueue \<Rightarrow> 'a ThreadSafeQueue option" where
  "wait_for_item q = (if queue_m q = [] \<and> \<not> shutdown_m q then wait_for_item q else Some q)"

text \<open>
  \<open>bool pop(T& item)\<close>: the result, the referenced item after the call, the queue. The
  wait ends only on a non-empty queue or a set flag, so \<open>front()\<close> is never taken of an
  empty queue; that excluded case is \<open>None\<close> as well.
\<close>

definition pop :: "'a ThreadSafeQueue \<Rightarrow> 'a \<Rightarrow> (retval \<times> 'a \<times> 'a ThreadSafeQueue) option" where
  "pop q0 item =
     (case wait_for_item q0 of
        None \<Rightarrow> None
      | Some q \<Rightarrow>
          (if shutdown_m q \<and> queue_m q = [] then Some (Bool False, item, q)
           else (case queue_m q of
                   [] \<Rightarrow> None
                 | front # rest \<Rightarrow> Some (Bool True, front, q\<lparr>queue_m := rest\<rparr>))))"

text \<open>\<open>std::shared_ptr<T> pop()\<close>: the null pointer is \<open>None\<close>.\<close>

definition pop_ptr :: "'a ThreadSafeQueue \<Rightarrow> ('a option \<times> 'a ThreadSafeQueue) option" where
  "pop_ptr q0 =
     (case wait_for_item q0 of
        None \<Rightarrow> None
      | Some q \<Rightarrow>
          (if shutdown_m q \<and> queue_m q = [] then Some (None, q)
           else (case queue_m q of
                   [] \<Rightarrow> None
                 | front # rest \<Rightarrow> Some (Some front, q\<lparr>queue_m := rest\<rparr>))))"

definition shutdown :: "'a ThreadSafeQueue \<Rightarrow> 'a ThreadSafeQueue" where
  "shutdown q = q\<lparr>shutdown_m := True\<rparr>"

definition isShutdown :: "'a ThreadSafeQueue \<Rightarrow> bool" where
  "isShutdown q = shutdown_m q"

definition restart :: "'a ThreadSafeQueue \<Rightarrow> 'a ThreadSafeQueue" where
  "restart q = q\<lparr>shutdown_m := False\<rparr>"

section \<open>LRUCache (include/storage/cache_manager.h)\<close>

text \<open>
  \<open>size_t\<close> is a 64-bit word: \<open>++\<close> and \<open>--\<close> wrap around. A time point of the steady
  clock is a tick count, handed to the operations that read the clock. The node's member
  \<open>value\<close> is the field \<open>node_value\<close>.
\<close>

record ('k, 'v) CacheNode =
  key :: 'k
  node_value :: 'v
  accessTime :: nat

text \<open>
  \<open>nodeList_\<close> is the list of nodes, most recently used first. \<open>hashMap_\<close> maps a key
  to the iterator of its node; the model keeps its set of keys, and the node an iterator
  points to is the node of the list that carries the key (\<open>node_index\<close>).
\<close>

record ('k, 'v) LRUCache =
  nodeList_m :: "('k, 'v) CacheNode list"
  hashMap_m :: "'k set"
  capacity_m :: "64 word"
  currentSize_m :: "64 word"
  hitCount_m :: "64 word"
  missCount_m :: "64 word"
  evictionCount_m :: "64 word"

definition LRUCache_new :: "64 word \<Rightarrow> ('k, 'v) LRUCache" where
  "LRUCache_new capacity =
     (let c = \<lparr>nodeList_m = [], hashMap_m = {}, capacity_m = capacity, currentSize_m = 0,
                hitCount_m = 0, missCount_m = 0, evictionCount_m = 0\<rparr>
      in if capacity_m c = 0 then c\<lparr>capacity_m := 1\<rparr> else c)"

fun node_index :: "'k \<Rightarrow> ('k, 'v) CacheNode list \<Rightarrow> nat" where
  "node_index k [] = 0"
| "node_index k (n # ns) = (if key n = k then 0 else Suc (node_index k ns))"

text \<open>\<open>moveToFront\<close>: the node at position \<open>i\<close> is spliced to the front unless it is there.\<close>

definition moveToFront :: "nat \<Rightarrow> 'a list \<Rightarrow> 'a list" where
  "moveToFront i ns = (if i \<noteq> 0 then (ns ! i) # take i ns @ drop (Suc i) ns else ns)"

definition evictLRU :: "('k, 'v) LRUCache \<Rightarrow> ('k, 'v) LRUCache" where
  "evictLRU c =
     (if nodeList_m c \<noteq> [] then
        c\<lparr>hashMap_m := hashMap_m c - {key (last (nodeList_m c))},
          nodeList_m := butlast (nodeList_m c),
          currentSize_m := currentSize_m c - 1,
          evictionCount_m := evictionCount_m c + 1\<rparr>
      else c)"

text \<open>
  In \<open>put\<close>, \<open>get\<close> and \<open>remove\<close> (here \<open>remove_key\<close>) a key found in the hash map whose node is not in the
  list would be a dangling iterator; \<open>lru_inv\<close> below excludes it, and the model then
  leaves the list as it is.
\<close>

definition put :: "nat \<Rightarrow> 'k \<Rightarrow> 'v \<Rightarrow> ('k, 'v) LRUCache \<Rightarrow> ('k, 'v) LRUCache" where
  "put now k v c =
     (if k \<in> hashMap_m c then
        (let i = node_index k (nodeList_m c)
         in if i < length (nodeList_m c) then
              c\<lparr>nodeList_m :=
                  moveToFront i ((nodeList_m c)[i := (nodeList_m c ! i)\<lparr>node_value := v, accessTime := now\<rparr>])\<rparr>
            else c)
      else
        (let c1 = (if currentSize_m c \<ge> capacity_m c then evictLRU c else c)
         in c1\<lparr>nodeList_m := \<lparr>key = k, node_value = v, accessTime = now\<rparr> # nodeList_m c1,
                hashMap_m := insert k (hashMap_m c1),
                currentSize_m := currentSize_m c1 + 1\<rparr>))"

text \<open>\<open>bool get(const Key&, Value&)\<close>: the result, the referenced value after the call, the cache.\<close>

definition get :: "nat \<Rightarrow> 'k \<Rightarrow> 'v \<Rightarrow> ('k, 'v) LRUCache \<Rightarrow> bool \<times> 'v \<times> ('k, 'v) LRUCache" where
  "get now k v c =
     (if k \<in> hashMap_m c then
        (let i = node_index k (nodeList_m c)
         in if i < length (nodeList_m c) then
              (True, node_value (nodeList_m c ! i),
               c\<lparr>nodeList_m := moveToFront i ((nodeList_m c)[i := (nodeList_m c ! i)\<lparr>accessTime := now\<rparr>]),
                 hitCount_m := hitCount_m c + 1\<rparr>)
            else (True, v, c\<lparr>hitCount_m := hitCount_m c + 1\<rparr>))
      else (False, v, c\<lparr>missCount_m := missCount_m c + 1\<rparr>))"

text \<open>\<open>std::shared_ptr<Value> get(const Key&)\<close>: \<open>nullptr\<close> is \<open>None\<close>.\<close>

definition get_ptr :: "nat \<Rightarrow> 'k \<Rightarrow> ('k, 'v) LRUCache \<Rightarrow> 'v option \<times> ('k, 'v) LRUCache" where
  "get_ptr now k c =
     (if k \<in> hashMap_m c then
        (let i = node_index k (nodeList_m c)
         in if i < length (nodeList_m c) then
              (Some (node_value (nodeList_m c ! i)),
               c\<lparr>nodeList_m := moveToFront i ((nodeList_m c)[i := (nodeList_m c ! i)\<lparr>accessTime := now\<rparr>]),
                 hitCount_m := hitCount_m c + 1\<rparr>)
            else (None, c\<lparr>hitCount_m := hitCount_m c + 1\<rparr>))
      else (None, c\<lparr>missCount_m := missCount_m c + 1\<rparr>))"

definition contains :: "'k \<Rightarrow> ('k, 'v) LRUCache \<Rightarrow> bool" where
  "contains k c = (k \<in> hashMap_m c)"

definition remove_key :: "'k \<Rightarrow> ('k, 'v) LRUCache \<Rightarrow> bool \<times> ('k, 'v) LRUCache" where
  "remove_key k c =
     (if k \<in> hashMap_m c then
        (let i = node_index k (nodeList_m c)
         in (True, c\<lparr>nodeList_m := take i (nodeList_m c) @ drop (Suc i) (nodeList_m c),
                     hashMap_m := hashMap_m c - {k},
                     currentSize_m := currentSize_m c - 1\<rparr>))
      else (False, c))"

definition clear :: "('k, 'v) LRUCache \<Rightarrow> ('k, 'v) LRUCache" where
  "clear c = c\<lparr>nodeList_m := [], hashMap_m := {}, currentSize_m := 0\<rparr>"

definition size_of :: "('k, 'v) LRUCache \<Rightarrow> 64 word" where
  "size_of c = currentSize_m c"

definition capacity :: "('k, 'v) LRUCache \<Rightarrow> 64 word" where
  "capacity c = capacity_m c"

definition getEvictionCount :: "('k, 'v) LRUCache \<Rightarrow> 64 word" where
  "getEvictionCount c = evictionCount_m c"

definition resetStatistics :: "('k, 'v) LRUCache \<Rightarrow> ('k, 'v) LRUCache" where
  "resetStatistics c = c\<lparr>hitCount_m := 0, missCount_m := 0, evictionCount_m := 0\<rparr>"

text \<open>
  \<open>while (currentSize_ > capacity_) evictLRU();\<close> in \<open>resize\<close>. \<open>evictLRU\<close> does nothing
  on an empty list, so the loop is not total by construction: not returning is \<open>None\<close>.
\<close>

partial_function (option) evict_while_over :: "('k, 'v) LRUCache \<Rightarrow> ('k, 'v) LRUCache option" where
  "evict_while_over c =
     (if currentSize_m c > capacity_m c then evict_while_over (evictLRU c) else Some c)"

definition resize :: "64 word \<Rightarrow> ('k, 'v) LRUCache \<Rightarrow> ('k, 'v) LRUCache option" where
  "resize newCapacity c = evict_while_over (c\<lparr>capacity_m := max newCapacity 1\<rparr>)"

text \<open>A client's calls on one cache, run in order from the constructed cache.\<close>

datatype ('k, 'v) cache_op =
    Put nat 'k 'v
  | Get nat 'k 'v
  | GetPtr nat 'k
  | Remove 'k
  | Clear
  | Resize "64 word"
  | ResetStatistics

fun apply_op :: "('k, 'v) cache_op \<Rightarrow> ('k, 'v) LRUCache \<Rightarrow> ('k, 'v) LRUCache option" where
  "apply_op (Put now k v) c = Some (put now k v c)"
| "apply_op (Get now k v) c = Some (snd (snd (get now k v c)))"
| "apply_op (GetPtr now k) c = Some (snd (get_ptr now k c))"
| "apply_op (Remove k) c = Some (snd (remove_key k c))"
| "apply_op Clear c = Some (clear c)"
| "apply_op (Resize n) c = resize n c"
| "apply_op ResetStatistics c = Some (resetStatistics c)"

fun run_ops :: "('k, 'v) cache_op list \<Rightarrow> ('k, 'v) LRUCache \<Rightarrow> ('k, 'v) LRUCache option" where
  "run_ops [] c = Some c"
| "run_ops (x # xs) c = (case apply_op x c of None \<Rightarrow> None | Some c' \<Rightarrow> run_ops xs c')"

text \<open>
  The representation invariant of the cache: one node per key, the hash map indexes
  exactly the nodes, the counter is the number of nodes, within the capacity, which is
  at least one.
\<close>

definition lru_inv :: "('k, 'v) LRUCache \<Rightarrow> bool" where
  "lru_inv c =
     (distinct (map key (nodeList_m c)) \<and>
      hashMap_m c = set (map key (nodeList_m c)) \<and>
      unat (currentSize_m c) = length (nodeList_m c) \<and>
      currentSize_m c \<le> capacity_m c \<and>
      1 \<le> capacity_m c)"

section \<open>FastFileSearchEngine (FastFileSearch.cpp)\<close>

record FileInfo =
  path :: string
  name :: string
  lowerName :: string
  fi_size :: "64 word"

record FastFileSearchEngine =
  m_fileIndex :: "FileInfo list"
  m_indexedFiles :: "64 word"
  m_isIndexing :: bool
  m_shouldStop :: bool

subsection \<open>SearchInstant\<close>

text \<open>
  \<open>std::string::find\<close>: the position of the first occurrence of the argument, \<open>npos\<close>
  (here \<open>None\<close>) when there is none.
\<close>

fun is_prefix :: "string \<Rightarrow> string \<Rightarrow> bool" where
  "is_prefix [] s = True"
| "is_prefix (a # as) [] = False"
| "is_prefix (a # as) (b # bs) = (a = b \<and> is_prefix as bs)"

fun find_from :: "nat \<Rightarrow> string \<Rightarrow> string \<Rightarrow> nat option" where
  "find_from pos [] needle = (if needle = [] then Some pos else None)"
| "find_from pos (h # t) needle =
     (if is_prefix needle (h # t) then Some pos else find_from (Suc pos) t needle)"

definition find_str :: "string \<Rightarrow> string \<Rightarrow> nat option" where
  "find_str s needle = find_from 0 s needle"

text \<open>The loop over \<open>m_fileIndex\<close>, with its \<open>break\<close> once 100 paths are collected.\<close>

fun search_loop :: "string \<Rightarrow> FileInfo list \<Rightarrow> string list \<Rightarrow> string list" where
  "search_loop lowerQuery [] results = results"
| "search_loop lowerQuery (file # rest) results =
     (if find_str (lowerName file) lowerQuery \<noteq> None then
        (let results' = results @ [path file]
         in if length results' \<ge> 100 then results' else search_loop lowerQuery rest results')
      else search_loop lowerQuery rest results)"

definition SearchInstant :: "string \<Rightarrow> FastFileSearchEngine \<Rightarrow> string list" where
  "SearchInstant qry e =
     (if qry = [] \<or> length qry < 1 then []
      else search_loop (map tolower_c qry) (m_fileIndex e) [])"

subsection \<open>IndexDirectoryOptimized\<close>

text \<open>
  The attribute bits come from the Windows headers (\<open>winnt.h\<close>), which the program
  includes.
\<close>

definition FILE_ATTRIBUTE_HIDDEN :: "32 word" where
  "FILE_ATTRIBUTE_HIDDEN = 0x2"

definition FILE_ATTRIBUTE_SYSTEM :: "32 word" where
  "FILE_ATTRIBUTE_SYSTEM = 0x4"

definition FILE_ATTRIBUTE_DIRECTORY :: "32 word" where
  "FILE_ATTRIBUTE_DIRECTORY = 0x10"

text \<open>
  The file system as the crawl reads it: an entry is the \<open>WIN32_FIND_DATAA\<close> that
  \<open>FindFirstFileExA\<close> and \<open>FindNextFileA\<close> deliver, together with what enumerating the
  entry itself would deliver (\<open>None\<close> when \<open>FindFirstFileExA\<close> gives
  \<open>INVALID_HANDLE_VALUE\<close>).
\<close>

datatype find_data =
  FindData (cFileName: string) (dwFileAttributes: "32 word") (nFileSizeHigh: "32 word")
    (nFileSizeLow: "32 word") (listing: "find_data list option")

text \<open>The one-character string literal holding a backslash.\<close>

definition path_sep :: string where
  "path_sep = [CHR 0x5C]"

text \<open>The \<open>else\<close> branch of the loop body: a file is appended to the index and counted.\<close>

definition add_file ::
  "string \<Rightarrow> string \<Rightarrow> 32 word \<Rightarrow> 32 word \<Rightarrow> FastFileSearchEngine \<Rightarrow> FastFileSearchEngine" where
  "add_file fpath fname sizeHigh sizeLow e =
     (let fileInfo = \<lparr>path = fpath, name = fname, lowerName = map tolower_c fname,
                       fi_size = push_bit 32 (ucast sizeHigh) OR ucast sizeLow\<rparr>
      in e\<lparr>m_fileIndex := m_fileIndex e @ [fileInfo], m_indexedFiles := m_indexedFiles e + 1\<rparr>)"

text \<open>The condition under which the loop body calls itself on a directory.\<close>

definition may_recurse :: "32 word \<Rightarrow> string \<Rightarrow> bool" where
  "may_recurse attrs fname =
     (\<not> (attrs AND FILE_ATTRIBUTE_SYSTEM \<noteq> 0) \<and>
      \<not> (attrs AND FILE_ATTRIBUTE_HIDDEN \<noteq> 0) \<and>
      fname \<noteq> ''System Volume Information'' \<and>
      fname \<noteq> ''$Recycle.Bin'' \<and>
      fname \<noteq> ''Windows'' \<and>
      fname \<noteq> ''Program Files'' \<and>
      fname \<noteq> ''Program Files (x86)'' \<and>
      fname \<noteq> ''ProgramData'')"

text \<open>
  \<open>IndexDirectoryOptimized dir l e\<close> runs the method on the directory \<open>dir\<close> whose
  enumeration is \<open>l\<close>; \<open>index_entries\<close> is its \<open>do ... while\<close> loop over the entries.
  The stop flag is the engine's, read at every entry; no other thread changes it here.
\<close>

fun IndexDirectoryOptimized ::
  "string \<Rightarrow> find_data list option \<Rightarrow> FastFileSearchEngine \<Rightarrow> FastFileSearchEngine"
and index_entries ::
  "string \<Rightarrow> find_data list \<Rightarrow> FastFileSearchEngine \<Rightarrow> FastFileSearchEngine"
where
  "IndexDirectoryOptimized dir None e = e"
| "IndexDirectoryOptimized dir (Some entries) e = index_entries dir entries e"
| "index_entries dir [] e = e"
| "index_entries dir (FindData fname attrs sizeHigh sizeLow sub # rest) e =
     (if m_shouldStop e then e
      else if fname = ''.'' \<or> fname = ''..'' then index_entries dir rest e
      else
        (let fpath = dir @ path_sep @ fname
         in if attrs AND FILE_ATTRIBUTE_DIRECTORY \<noteq> 0 then
              (if may_recurse attrs fname
               then index_entries dir rest (IndexDirectoryOptimized fpath sub e)
               else index_entries dir rest e)
            else index_entries dir rest (add_file fpath fname sizeHigh sizeLow e)))"

text \<open>The system roots the specification lists.\<close>

definition system_roots :: "string list" where
  "system_roots =
     [''Windows'', ''Program Files'', ''Program Files (x86)'', ''ProgramData'',
      ''System Volume Information'', ''$Recycle.Bin'']"

section \<open>Normalised names\<close>

lemma normalize_loop_eq:
  "normalize_loop acc cs =
     acc @ map (\<lambda>c. if isalnum_c c then tolower_c c else CHR '' '')
             (filter (\<lambda>c. isalnum_c c \<or> is_separator c) cs)"
  by (induction cs arbitrary: acc) (auto simp: normalize_char_def is_separator_def)

text \<open>
  The name \<open>a..b\<close> has a run of two separators. \<open>updateTokens\<close> turns it into \<open>a\<close>, two
  spaces, \<open>b\<close>, where collapsing the run would give one space: the normalised name is not
  the collapsed one and has two adjacent spaces.
\<close>

theorem updateTokens_collapse_counterexample:
  "normalizedName (updateTokens (FileEntry_default\<lparr>fileName := ''a..b''\<rparr>)) = ''a  b'' \<and>
   spec_normalized_name ''a..b'' = ''a b'' \<and>
   has_adjacent_spaces (normalizedName (updateTokens (FileEntry_default\<lparr>fileName := ''a..b''\<rparr>)))"
  by code_simp

text \<open>
  C1, as the code has it: after \<open>updateTokens\<close> the normalised name is the file name with
  every alphanumeric character lower-cased, every single \<open>.\<close>, \<open>_\<close>, \<open>-\<close> and space
  replaced by one space of its own (a run of n separators gives n spaces), and every
  other character dropped.
\<close>

theorem updateTokens_normalizedName:
  "normalizedName (updateTokens e) =
     map (\<lambda>c. if isalnum_c c then tolower_c c else CHR '' '')
       (filter (\<lambda>c. isalnum_c c \<or> is_separator c) (fileName e))"
  by (simp add: updateTokens_def Let_def normalize_loop_eq)

theorem updateTokens_normalizedName_witness:
  "normalizedName (updateTokens (FileEntry_default\<lparr>fileName := ''My_File..v2-(1).TXT''\<rparr>)) =
     ''my file  v2 1 txt''"
proof -
  have "map (\<lambda>c. if isalnum_c c then tolower_c c else CHR '' '')
          (filter (\<lambda>c. isalnum_c c \<or> is_separator c) ''My_File..v2-(1).TXT'') = ''my file  v2 1 txt''"
    by code_simp
  then show ?thesis
    using updateTokens_normalizedName [of "FileEntry_default\<lparr>fileName := ''My_File..v2-(1).TXT''\<rparr>"]
    by simp
qed

section \<open>Query validation\<close>

text \<open>
  For every threshold other than NaN the two comparisons of \<open>isValid\<close> decide
  membership in the range: \<open>isValid\<close> is false exactly when the text is empty, the
  result limit is 0 or the threshold is not a number between 0 and 1.
\<close>

lemma isValid_false_iff_ordered:
  assumes "q_fuzzyThreshold q \<noteq> NaN"
  shows "\<not> isValid q \<longleftrightarrow>
           query q = [] \<or> maxResults q = 0 \<or> \<not> spec_threshold_in_range (q_fuzzyThreshold q)"
  using assms
  by (cases "q_fuzzyThreshold q")
    (auto simp: isValid_def double_greater_def spec_threshold_in_range_def)

text \<open>
  C5 does not hold of the code at a NaN threshold: NaN is no number between 0 and 1,
  yet both comparisons of \<open>isValid\<close> are false on it, so a query with a non-empty
  text, a result limit other than 0 and a NaN threshold is accepted as valid.
\<close>

theorem isValid_accepts_nan:
  assumes "query q \<noteq> []" and "maxResults q \<noteq> 0" and "q_fuzzyThreshold q = NaN"
  shows "isValid q \<and> \<not> spec_threshold_in_range (q_fuzzyThreshold q)"
  using assms by (simp add: isValid_def double_greater_def spec_threshold_in_range_def)

theorem isValid_accepts_nan_witness:
  "isValid \<lparr>query = ''report'', mode = Fuzzy, q_includeDrives = [], q_excludePaths = [], fileTypes = [],
       sizeRange = \<lparr>minSize = 0, maxSize = - 1\<rparr>, dateRange = \<lparr>startDate = 0, endDate = 1700000000\<rparr>,
       maxResults = 1000, sortOrder = Relevance, caseSensitive = False, q_fuzzyThreshold = NaN\<rparr> \<and>
   \<not> spec_threshold_in_range NaN"
  using isValid_accepts_nan [of "\<lparr>query = ''report'', mode = Fuzzy, q_includeDrives = [], q_excludePaths = [], fileTypes = [],
       sizeRange = \<lparr>minSize = 0, maxSize = - 1\<rparr>, dateRange = \<lparr>startDate = 0, endDate = 1700000000\<rparr>,
       maxResults = 1000, sortOrder = Relevance, caseSensitive = False, q_fuzzyThreshold = NaN\<rparr>"]
  by simp

section \<open>Settings\<close>




section \<open>Ranking order\<close>









section \<open>Shutdown of the queue\<close>

lemma wait_for_item_shutdown: "shutdown_m q \<Longrightarrow> wait_for_item q = Some q"
  by (subst wait_for_item.simps) simp

text \<open>
  C2: on a queue that has been shut down, \<open>pop\<close> (both overloads) returns at once; it
  returns none (\<open>false\<close>, the null pointer) only when the queue is empty, and otherwise
  hands out the front item and removes it.
\<close>

theorem pop_after_shutdown:
  "isShutdown q \<Longrightarrow>
     pop q item =
       (case queue_m q of
          [] \<Rightarrow> Some (Bool False, item, q)
        | front # rest \<Rightarrow> Some (Bool True, front, q\<lparr>queue_m := rest\<rparr>)) \<and>
     pop_ptr q =
       (case queue_m q of
          [] \<Rightarrow> Some (None, q)
        | front # rest \<Rightarrow> Some (Some front, q\<lparr>queue_m := rest\<rparr>))"
  by (simp add: isShutdown_def pop_def pop_ptr_def wait_for_item_shutdown split: list.split)

theorem pop_after_shutdown_witness:
  "isShutdown (shutdown \<lparr>queue_m = [4, 5 :: nat], shutdown_m = False\<rparr>) \<and>
   pop_ptr (shutdown \<lparr>queue_m = [4, 5 :: nat], shutdown_m = False\<rparr>) =
     Some (Some 4, \<lparr>queue_m = [5], shutdown_m = True\<rparr>) \<and>
   pop_ptr \<lparr>queue_m = [5 :: nat], shutdown_m = True\<rparr> = Some (Some 5, \<lparr>queue_m = [], shutdown_m = True\<rparr>) \<and>
   pop_ptr \<lparr>queue_m = ([] :: nat list), shutdown_m = True\<rparr> = Some (None, \<lparr>queue_m = [], shutdown_m = True\<rparr>) \<and>
   pop \<lparr>queue_m = [5 :: nat], shutdown_m = True\<rparr> 0 = Some (Bool True, 5, \<lparr>queue_m = [], shutdown_m = True\<rparr>) \<and>
   pop \<lparr>queue_m = ([] :: nat list), shutdown_m = True\<rparr> 0 = Some (Bool False, 0, \<lparr>queue_m = [], shutdown_m = True\<rparr>)"
  using pop_after_shutdown [of "shutdown \<lparr>queue_m = [4, 5 :: nat], shutdown_m = False\<rparr>" 0]
    pop_after_shutdown [of "\<lparr>queue_m = [5 :: nat], shutdown_m = True\<rparr>" 0]
    pop_after_shutdown [of "\<lparr>queue_m = ([] :: nat list), shutdown_m = True\<rparr>" 0]
  by (simp add: isShutdown_def shutdown_def)

text \<open>
  \<open>push\<close> is declared \<open>void\<close>: on a queue that has been shut down the call hands
  nothing back, so in particular not \<open>false\<close>.
\<close>

theorem push_after_shutdown_counterexample:
  "fst (push (7 :: nat) (shutdown \<lparr>queue_m = [4], shutdown_m = False\<rparr>)) \<noteq> Bool False"
  by (simp add: push_def shutdown_def)

text \<open>
  C7, as the code has it: on a queue that has been shut down and not restarted,
  \<open>push\<close> is a silent no-op: it leaves the queue as it is and returns no value. Once
  restarted, the queue takes the item at its back.
\<close>

theorem push_after_shutdown:
  "isShutdown q \<Longrightarrow>
     push v q = (Void, q) \<and>
     push v (restart q) = (Void, \<lparr>queue_m = queue_m q @ [v], shutdown_m = False\<rparr>)"
  by (simp add: push_def isShutdown_def restart_def)

theorem push_after_shutdown_witness:
  "isShutdown (shutdown \<lparr>queue_m = [4 :: nat], shutdown_m = False\<rparr>) \<and>
   push 7 (shutdown \<lparr>queue_m = [4 :: nat], shutdown_m = False\<rparr>) = (Void, \<lparr>queue_m = [4], shutdown_m = True\<rparr>)"
  using push_after_shutdown [of "shutdown \<lparr>queue_m = [4 :: nat], shutdown_m = False\<rparr>" 7]
  by (simp add: isShutdown_def shutdown_def)

section \<open>The LRU cache\<close>

lemma node_index_less: "node_index k ns < length ns \<longleftrightarrow> k \<in> set (map key ns)"
  by (induction ns) auto

lemma key_nth_node_index: "k \<in> set (map key ns) \<Longrightarrow> key (ns ! node_index k ns) = k"
  by (induction ns) auto

lemma erase_node_eq_filter:
  "distinct (map key ns) \<Longrightarrow> k \<in> set (map key ns) \<Longrightarrow>
   take (node_index k ns) ns @ drop (Suc (node_index k ns)) ns = filter (\<lambda>n. key n \<noteq> k) ns"
proof (induction ns)
  case Nil
  then show ?case by simp
next
  case (Cons a ns)
  show ?case
  proof (cases "key a = k")
    case True
    with Cons.prems have "k \<notin> key ` set ns" by simp
    then have "\<forall>n\<in>set ns. key n \<noteq> k" by blast
    then have "filter (\<lambda>n. key n \<noteq> k) ns = ns" by simp
    with True show ?thesis by simp
  next
    case False
    with Cons show ?thesis by auto
  qed
qed

lemma moveToFront_nth:
  "i < length ns \<Longrightarrow> moveToFront i ns = (ns ! i) # take i ns @ drop (Suc i) ns"
  by (cases i; cases ns) (auto simp: moveToFront_def)

lemma moveToFront_update:
  assumes "distinct (map key ns)" and "k \<in> set (map key ns)"
  shows "moveToFront (node_index k ns) (ns[node_index k ns := n']) = n' # filter (\<lambda>n. key n \<noteq> k) ns"
proof -
  let ?i = "node_index k ns"
  from assms(2) have i: "?i < length ns" by (simp only: node_index_less)
  then have "moveToFront ?i (ns[?i := n']) = n' # take ?i ns @ drop (Suc ?i) ns"
    by (simp add: moveToFront_nth)
  with erase_node_eq_filter [OF assms] show ?thesis by simp
qed

lemma keys_filter_other:
  "set (map key (filter (\<lambda>n. key n \<noteq> k) ns)) = set (map key ns) - {k}"
  by (induction ns) auto

lemma length_filter_other:
  fixes ns :: "('k, 'v) CacheNode list"
  shows "distinct (map key ns) \<Longrightarrow> k \<in> set (map key ns) \<Longrightarrow>
   Suc (length (filter (\<lambda>n. key n \<noteq> k) ns)) = length ns"
proof -
  assume d: "distinct (map key ns)" and k: "k \<in> set (map key ns)"
  from k have "node_index k ns < length ns" by (simp only: node_index_less)
  then have "length (take (node_index k ns) ns @ drop (Suc (node_index k ns)) ns) = length ns - 1"
    by simp
  with erase_node_eq_filter [OF d k] k show ?thesis
    by (cases ns) auto
qed

lemma keys_butlast:
  "distinct (map key ns) \<Longrightarrow> ns \<noteq> [] \<Longrightarrow>
   set (map key (butlast ns)) = set (map key ns) - {key (last ns)}"
proof -
  assume d: "distinct (map key ns)" and ne: "ns \<noteq> []"
  then have "ns = butlast ns @ [last ns]" by simp
  then obtain bs l where ns: "ns = bs @ [l]" by blast
  with d show ?thesis by auto
qed

lemma LRUCache_new_inv: "lru_inv (LRUCache_new n)"
proof (cases "n = 0")
  case True
  then show ?thesis by (simp add: lru_inv_def LRUCache_new_def Let_def)
next
  case False
  then have "1 \<le> n" by (simp add: word_le_nat_alt unat_gt_0 Suc_le_eq)
  with False show ?thesis by (simp add: lru_inv_def LRUCache_new_def Let_def)
qed

lemma evictLRU_effect:
  assumes d: "distinct (map key (nodeList_m c))"
    and h: "hashMap_m c = set (map key (nodeList_m c))"
    and u: "unat (currentSize_m c) = length (nodeList_m c)"
    and nz: "currentSize_m c \<noteq> 0"
  shows "nodeList_m (evictLRU c) = butlast (nodeList_m c)"
    and "hashMap_m (evictLRU c) = set (map key (butlast (nodeList_m c)))"
    and "currentSize_m (evictLRU c) = currentSize_m c - 1"
    and "unat (currentSize_m (evictLRU c)) = length (butlast (nodeList_m c))"
    and "evictionCount_m (evictLRU c) = evictionCount_m c + 1"
    and "capacity_m (evictLRU c) = capacity_m c"
    and "distinct (map key (butlast (nodeList_m c)))"
proof -
  from u nz have ne: "nodeList_m c \<noteq> []"
    by (auto simp: unat_0_iff)
  from ne show "nodeList_m (evictLRU c) = butlast (nodeList_m c)" by (simp add: evictLRU_def)
  from ne h keys_butlast [OF d ne] show "hashMap_m (evictLRU c) = set (map key (butlast (nodeList_m c)))"
    by (simp add: evictLRU_def)
  from ne show "currentSize_m (evictLRU c) = currentSize_m c - 1" by (simp add: evictLRU_def)
  from ne u nz show "unat (currentSize_m (evictLRU c)) = length (butlast (nodeList_m c))"
    by (simp add: evictLRU_def unat_minus_one)
  from ne show "evictionCount_m (evictLRU c) = evictionCount_m c + 1" by (simp add: evictLRU_def)
  from ne show "capacity_m (evictLRU c) = capacity_m c" by (simp add: evictLRU_def)
  from ne d show "distinct (map key (butlast (nodeList_m c)))"
    by (simp add: map_butlast distinct_butlast)
qed

lemma size_zero_of_capacity_reached:
  fixes s cap :: "64 word"
  assumes "1 \<le> cap" and "cap \<le> s"
  shows "s \<noteq> 0"
  using assms by (auto simp: word_le_nat_alt)

lemma put_present:
  assumes inv: "lru_inv c" and k: "k \<in> hashMap_m c"
  shows "put now k v c =
           c\<lparr>nodeList_m := \<lparr>key = k, node_value = v, accessTime = now\<rparr> #
                             filter (\<lambda>n. key n \<noteq> k) (nodeList_m c)\<rparr>"
proof -
  let ?ns = "nodeList_m c"
  let ?i = "node_index k ?ns"
  from inv k have mem: "k \<in> set (map key ?ns)" and d: "distinct (map key ?ns)"
    by (simp_all add: lru_inv_def)
  from mem have i: "?i < length ?ns" by (simp only: node_index_less)
  have "(?ns ! ?i)\<lparr>node_value := v, accessTime := now\<rparr> =
          \<lparr>key = k, node_value = v, accessTime = now\<rparr>"
    using key_nth_node_index [OF mem] by (cases "?ns ! ?i") simp
  with k i moveToFront_update [OF d mem] show ?thesis
    by (simp add: put_def Let_def)
qed

lemma put_absent_room:
  assumes inv: "lru_inv c" and k: "k \<notin> hashMap_m c" and room: "currentSize_m c < capacity_m c"
  shows "put now k v c =
           c\<lparr>nodeList_m := \<lparr>key = k, node_value = v, accessTime = now\<rparr> # nodeList_m c,
             hashMap_m := insert k (hashMap_m c),
             currentSize_m := currentSize_m c + 1\<rparr>"
  using k room by (simp add: put_def Let_def not_le [symmetric])

lemma put_absent_full:
  assumes inv: "lru_inv c" and k: "k \<notin> hashMap_m c" and full: "currentSize_m c = capacity_m c"
  shows "put now k v c =
           c\<lparr>nodeList_m := \<lparr>key = k, node_value = v, accessTime = now\<rparr> # butlast (nodeList_m c),
             hashMap_m := insert k (hashMap_m c - {key (last (nodeList_m c))}),
             currentSize_m := currentSize_m c,
             evictionCount_m := evictionCount_m c + 1\<rparr>"
    and "nodeList_m c \<noteq> []"
proof -
  from inv full have nz: "currentSize_m c \<noteq> 0"
    by (intro size_zero_of_capacity_reached [of "capacity_m c"]) (simp_all add: lru_inv_def)
  with inv show ne: "nodeList_m c \<noteq> []"
    by (auto simp: lru_inv_def unat_0_iff)
  with k full show "put now k v c =
           c\<lparr>nodeList_m := \<lparr>key = k, node_value = v, accessTime = now\<rparr> # butlast (nodeList_m c),
             hashMap_m := insert k (hashMap_m c - {key (last (nodeList_m c))}),
             currentSize_m := currentSize_m c,
             evictionCount_m := evictionCount_m c + 1\<rparr>"
    by (simp add: put_def Let_def evictLRU_def)
qed

lemma unat_inc_below:
  fixes s cap :: "64 word"
  assumes "s < cap"
  shows "unat (s + 1) = Suc (unat s)" and "s + 1 \<le> cap"
  using assms by unat_arith+

lemma put_inv:
  assumes inv: "lru_inv c"
  shows "lru_inv (put now k v c)"
proof (cases "k \<in> hashMap_m c")
  case True
  from inv True have mem: "k \<in> set (map key (nodeList_m c))" and d: "distinct (map key (nodeList_m c))"
    by (simp_all add: lru_inv_def)
  have "lru_inv (c\<lparr>nodeList_m := \<lparr>key = k, node_value = v, accessTime = now\<rparr> #
                             filter (\<lambda>n. key n \<noteq> k) (nodeList_m c)\<rparr>)"
    using inv mem length_filter_other [OF d mem]
    by (auto simp: lru_inv_def keys_filter_other distinct_map_filter)
  with put_present [OF inv True] show ?thesis by simp
next
  case absent: False
  show ?thesis
  proof (cases "currentSize_m c < capacity_m c")
    case True
    from inv absent unat_inc_below [OF True] show ?thesis
      by (simp add: put_absent_room [OF inv absent True] lru_inv_def)
  next
    case False
    with inv have full: "currentSize_m c = capacity_m c"
      by (simp add: lru_inv_def)
    from put_absent_full(2) [OF inv absent full] have ne: "nodeList_m c \<noteq> []" .
    from inv have d: "distinct (map key (nodeList_m c))" by (simp add: lru_inv_def)
    have "k \<notin> set (map key (butlast (nodeList_m c)))"
      using inv absent keys_butlast [OF d ne] by (simp add: lru_inv_def)
    moreover have "Suc (length (butlast (nodeList_m c))) = length (nodeList_m c)"
      using ne by simp
    ultimately show ?thesis
      using inv d ne keys_butlast [OF d ne]
      by (simp add: put_absent_full(1) [OF inv absent full] lru_inv_def map_butlast distinct_butlast full)
  qed
qed


lemma touch_inv:
  assumes inv: "lru_inv c" and k: "k \<in> hashMap_m c"
  shows "lru_inv (c\<lparr>nodeList_m :=
            moveToFront (node_index k (nodeList_m c))
              ((nodeList_m c)[node_index k (nodeList_m c) :=
                 (nodeList_m c ! node_index k (nodeList_m c))\<lparr>accessTime := now\<rparr>]),
          hitCount_m := h\<rparr>)"
proof -
  let ?ns = "nodeList_m c"
  let ?i = "node_index k ?ns"
  from inv k have mem: "k \<in> set (map key ?ns)" and d: "distinct (map key ?ns)"
    by (simp_all add: lru_inv_def)
  have "key ((?ns ! ?i)\<lparr>accessTime := now\<rparr>) = k"
    using key_nth_node_index [OF mem] by simp
  with inv mem length_filter_other [OF d mem] show ?thesis
    by (auto simp: moveToFront_update [OF d mem] lru_inv_def keys_filter_other distinct_map_filter)
qed

lemma get_inv:
  assumes inv: "lru_inv c"
  shows "lru_inv (snd (snd (get now k v c)))"
proof (cases "k \<in> hashMap_m c")
  case True
  with inv have "node_index k (nodeList_m c) < length (nodeList_m c)"
    by (simp add: lru_inv_def node_index_less)
  with True touch_inv [OF inv True] show ?thesis
    by (simp add: get_def Let_def)
next
  case False
  with inv show ?thesis by (simp add: get_def lru_inv_def)
qed

lemma get_ptr_inv:
  assumes inv: "lru_inv c"
  shows "lru_inv (snd (get_ptr now k c))"
proof (cases "k \<in> hashMap_m c")
  case True
  with inv have "node_index k (nodeList_m c) < length (nodeList_m c)"
    by (simp add: lru_inv_def node_index_less)
  with True touch_inv [OF inv True] show ?thesis
    by (simp add: get_ptr_def Let_def)
next
  case False
  with inv show ?thesis by (simp add: get_ptr_def lru_inv_def)
qed

lemma word_dec_le:
  fixes s cap :: "64 word"
  assumes "s \<le> cap" and "s \<noteq> 0"
  shows "s - 1 \<le> cap"
  using assms by unat_arith

lemma remove_key_inv:
  assumes inv: "lru_inv c"
  shows "lru_inv (snd (remove_key k c))"
proof (cases "k \<in> hashMap_m c")
  case True
  let ?ns = "nodeList_m c"
  from inv True have mem: "k \<in> set (map key ?ns)" and d: "distinct (map key ?ns)"
    and u: "unat (currentSize_m c) = length ?ns" and le: "currentSize_m c \<le> capacity_m c"
    by (simp_all add: lru_inv_def)
  from mem have "?ns \<noteq> []" by auto
  with u have nz: "currentSize_m c \<noteq> 0" by (auto simp: unat_0_iff [symmetric])
  from u nz length_filter_other [OF d mem]
  have "unat (currentSize_m c - 1) = length (filter (\<lambda>n. key n \<noteq> k) ?ns)"
    by (simp add: unat_minus_one)
  with inv True word_dec_le [OF le nz] show ?thesis
    by (auto simp: remove_key_def Let_def erase_node_eq_filter [OF d mem] lru_inv_def
        distinct_map_filter)
next
  case False
  with inv show ?thesis by (simp add: remove_key_def)
qed

lemma clear_inv: "lru_inv c \<Longrightarrow> lru_inv (clear c)"
  by (simp add: clear_def lru_inv_def)

lemma resetStatistics_inv: "lru_inv c \<Longrightarrow> lru_inv (resetStatistics c)"
  by (simp add: resetStatistics_def lru_inv_def)

lemma evict_while_over_total:
  assumes "distinct (map key (nodeList_m c))"
    and "hashMap_m c = set (map key (nodeList_m c))"
    and "unat (currentSize_m c) = length (nodeList_m c)"
    and "1 \<le> capacity_m c"
  shows "\<exists>c'. evict_while_over c = Some c' \<and> lru_inv c' \<and> capacity_m c' = capacity_m c"
  using assms
proof (induction "length (nodeList_m c)" arbitrary: c)
  case 0
  then have "currentSize_m c = 0" by (simp add: unat_0_iff [symmetric])
  then have "evict_while_over c = Some c"
    by (subst evict_while_over.simps) simp
  moreover from 0 \<open>currentSize_m c = 0\<close> have "lru_inv c" by (simp add: lru_inv_def)
  ultimately show ?case by simp
next
  case (Suc n)
  show ?case
  proof (cases "currentSize_m c > capacity_m c")
    case False
    then have "evict_while_over c = Some c"
      by (subst evict_while_over.simps) simp
    moreover from Suc.prems False have "lru_inv c" by (simp add: lru_inv_def not_less)
    ultimately show ?thesis by simp
  next
    case True
    from Suc.hyps(2) Suc.prems(3) have nz: "currentSize_m c \<noteq> 0"
      by (auto simp: unat_0_iff [symmetric])
    note ev = evictLRU_effect [OF Suc.prems(1) Suc.prems(2) Suc.prems(3) nz]
    from Suc.hyps(2) have "n = length (nodeList_m (evictLRU c))"
      by (simp add: ev(1))
    moreover have "distinct (map key (nodeList_m (evictLRU c)))" by (simp add: ev(1) ev(7))
    moreover have "hashMap_m (evictLRU c) = set (map key (nodeList_m (evictLRU c)))" by (simp add: ev(1) ev(2))
    moreover have "unat (currentSize_m (evictLRU c)) = length (nodeList_m (evictLRU c))" by (simp add: ev(1) ev(4))
    moreover have "1 \<le> capacity_m (evictLRU c)" using Suc.prems(4) by (simp add: ev(6))
    ultimately obtain c' where "evict_while_over (evictLRU c) = Some c'" "lru_inv c'"
      "capacity_m c' = capacity_m (evictLRU c)"
      using Suc.hyps(1) by blast
    moreover from True have "evict_while_over c = evict_while_over (evictLRU c)"
      by (subst evict_while_over.simps) simp
    ultimately show ?thesis by (simp add: ev(6))
  qed
qed

lemma word_max_one: "1 \<le> max n (1 :: 64 word)"
  by simp

lemma resize_total:
  assumes inv: "lru_inv c"
  shows "\<exists>c'. resize n c = Some c' \<and> lru_inv c' \<and> capacity_m c' = max n 1"
proof -
  from inv word_max_one [of n]
  have "\<exists>c'. evict_while_over (c\<lparr>capacity_m := max n 1\<rparr>) = Some c' \<and> lru_inv c' \<and>
          capacity_m c' = capacity_m (c\<lparr>capacity_m := max n 1\<rparr>)"
    by (intro evict_while_over_total) (simp_all add: lru_inv_def)
  then show ?thesis by (simp add: resize_def)
qed

lemma apply_op_inv:
  assumes "lru_inv c"
  shows "\<exists>c'. apply_op x c = Some c' \<and> lru_inv c'"
  using assms resize_total [OF assms]
  by (cases x) (auto simp: put_inv get_inv get_ptr_inv remove_key_inv clear_inv resetStatistics_inv)

lemma run_ops_inv:
  assumes "lru_inv c"
  shows "\<exists>c'. run_ops xs c = Some c' \<and> lru_inv c'"
  using assms
proof (induction xs arbitrary: c)
  case Nil
  then show ?case by simp
next
  case (Cons x xs)
  from apply_op_inv [OF Cons.prems, of x] obtain c1 where "apply_op x c = Some c1" "lru_inv c1"
    by blast
  with Cons.IH [of c1] show ?case by simp
qed

lemma run_ops_append:
  "run_ops (xs @ ys) c = (case run_ops xs c of None \<Rightarrow> None | Some c' \<Rightarrow> run_ops ys c')"
  by (induction xs arbitrary: c) (auto split: option.splits)

text \<open>
  C8: every sequence of operations on a constructed cache returns, and leaves the size no
  greater than the capacity and the capacity at least 1; a requested capacity of 0 becomes
  1 in the constructor and in \<open>resize\<close>.
\<close>

theorem lru_size_within_capacity:
  "(\<exists>c. run_ops ops (LRUCache_new n) = Some c \<and> size_of c \<le> capacity c \<and> 1 \<le> capacity c) \<and>
   capacity (LRUCache_new 0) = 1 \<and>
   (\<exists>c. run_ops (ops @ [Resize 0]) (LRUCache_new n) = Some c \<and> capacity c = 1)"
proof -
  obtain c where c: "run_ops ops (LRUCache_new n) = Some c" "lru_inv c"
    using run_ops_inv [OF LRUCache_new_inv] by blast
  then have "\<exists>c. run_ops ops (LRUCache_new n) = Some c \<and> size_of c \<le> capacity c \<and> 1 \<le> capacity c"
    by (simp add: lru_inv_def size_of_def capacity_def)
  moreover have "capacity (LRUCache_new 0) = 1"
    by (simp add: capacity_def LRUCache_new_def)
  moreover from resize_total [OF c(2), of 0] c(1)
  have "\<exists>c. run_ops (ops @ [Resize 0]) (LRUCache_new n) = Some c \<and> capacity c = 1"
    by (auto simp: run_ops_append capacity_def)
  ultimately show ?thesis by blast
qed


text \<open>
  C4: on a cache that satisfies its representation invariant (every cache built by the
  constructor and the public operations does, see \<open>run_ops_inv\<close>), \<open>put\<close> of a key that
  is present replaces the value and moves the node to the front, leaving size and
  eviction count as they are; \<open>put\<close> of an absent key inserts at the front, and when the
  size equals the capacity it first removes the last (least recently used) node and adds
  one to the eviction count.
\<close>

theorem put_moves_or_inserts:
  assumes "lru_inv c"
  shows "(contains k c \<longrightarrow>
            nodeList_m (put now k v c) =
              \<lparr>key = k, node_value = v, accessTime = now\<rparr> # filter (\<lambda>n. key n \<noteq> k) (nodeList_m c) \<and>
            size_of (put now k v c) = size_of c \<and>
            getEvictionCount (put now k v c) = getEvictionCount c) \<and>
         (\<not> contains k c \<and> size_of c < capacity c \<longrightarrow>
            nodeList_m (put now k v c) = \<lparr>key = k, node_value = v, accessTime = now\<rparr> # nodeList_m c \<and>
            size_of (put now k v c) = size_of c + 1 \<and>
            getEvictionCount (put now k v c) = getEvictionCount c) \<and>
         (\<not> contains k c \<and> size_of c = capacity c \<longrightarrow>
            nodeList_m (put now k v c) =
              \<lparr>key = k, node_value = v, accessTime = now\<rparr> # butlast (nodeList_m c) \<and>
            \<not> contains (key (last (nodeList_m c))) (put now k v c) \<and>
            size_of (put now k v c) = size_of c \<and>
            getEvictionCount (put now k v c) = getEvictionCount c + 1)"
proof (intro conjI impI)
  assume "contains k c"
  then have k: "k \<in> hashMap_m c" by (simp add: contains_def)
  show "nodeList_m (put now k v c) =
          \<lparr>key = k, node_value = v, accessTime = now\<rparr> # filter (\<lambda>n. key n \<noteq> k) (nodeList_m c)"
    by (simp add: put_present [OF assms k])
  show "size_of (put now k v c) = size_of c"
    by (simp add: put_present [OF assms k] size_of_def)
  show "getEvictionCount (put now k v c) = getEvictionCount c"
    by (simp add: put_present [OF assms k] getEvictionCount_def)
next
  assume "\<not> contains k c \<and> size_of c < capacity c"
  then have k: "k \<notin> hashMap_m c" and room: "currentSize_m c < capacity_m c"
    by (simp_all add: contains_def size_of_def capacity_def)
  show "nodeList_m (put now k v c) = \<lparr>key = k, node_value = v, accessTime = now\<rparr> # nodeList_m c"
    by (simp add: put_absent_room [OF assms k room])
  show "size_of (put now k v c) = size_of c + 1"
    by (simp add: put_absent_room [OF assms k room] size_of_def)
  show "getEvictionCount (put now k v c) = getEvictionCount c"
    by (simp add: put_absent_room [OF assms k room] getEvictionCount_def)
next
  assume "\<not> contains k c \<and> size_of c = capacity c"
  then have k: "k \<notin> hashMap_m c" and full: "currentSize_m c = capacity_m c"
    by (simp_all add: contains_def size_of_def capacity_def)
  note eq = put_absent_full(1) [OF assms k full]
  from put_absent_full(2) [OF assms k full] have ne: "nodeList_m c \<noteq> []" .
  show "nodeList_m (put now k v c) =
          \<lparr>key = k, node_value = v, accessTime = now\<rparr> # butlast (nodeList_m c)"
    by (simp add: eq)
  from assms ne have "key (last (nodeList_m c)) \<in> hashMap_m c"
    by (simp add: lru_inv_def)
  with k have "key (last (nodeList_m c)) \<noteq> k" by blast
  then show "\<not> contains (key (last (nodeList_m c))) (put now k v c)"
    by (simp add: eq contains_def)
  show "size_of (put now k v c) = size_of c"
    by (simp add: eq size_of_def)
  show "getEvictionCount (put now k v c) = getEvictionCount c + 1"
    by (simp add: eq getEvictionCount_def)
qed

theorem put_moves_or_inserts_witness:
  "lru_inv \<lparr>nodeList_m = [\<lparr>key = 1 :: nat, node_value = 10 :: nat, accessTime = 5\<rparr>,
                          \<lparr>key = 2, node_value = 20, accessTime = 4\<rparr>],
            hashMap_m = {1, 2}, capacity_m = 2, currentSize_m = 2,
            hitCount_m = 0, missCount_m = 0, evictionCount_m = 0\<rparr> \<and>
   nodeList_m (put 7 3 30
      \<lparr>nodeList_m = [\<lparr>key = 1 :: nat, node_value = 10 :: nat, accessTime = 5\<rparr>,
                     \<lparr>key = 2, node_value = 20, accessTime = 4\<rparr>],
       hashMap_m = {1, 2}, capacity_m = 2, currentSize_m = 2,
       hitCount_m = 0, missCount_m = 0, evictionCount_m = 0\<rparr>) =
     [\<lparr>key = 3, node_value = 30, accessTime = 7\<rparr>, \<lparr>key = 1, node_value = 10, accessTime = 5\<rparr>] \<and>
   getEvictionCount (put 7 3 30
      \<lparr>nodeList_m = [\<lparr>key = 1 :: nat, node_value = 10 :: nat, accessTime = 5\<rparr>,
                     \<lparr>key = 2, node_value = 20, accessTime = 4\<rparr>],
       hashMap_m = {1, 2}, capacity_m = 2, currentSize_m = 2,
       hitCount_m = 0, missCount_m = 0, evictionCount_m = 0\<rparr>) = 1 \<and>
   nodeList_m (put 7 2 21
      \<lparr>nodeList_m = [\<lparr>key = 1 :: nat, node_value = 10 :: nat, accessTime = 5\<rparr>,
                     \<lparr>key = 2, node_value = 20, accessTime = 4\<rparr>],
       hashMap_m = {1, 2}, capacity_m = 2, currentSize_m = 2,
       hitCount_m = 0, missCount_m = 0, evictionCount_m = 0\<rparr>) =
     [\<lparr>key = 2, node_value = 21, accessTime = 7\<rparr>, \<lparr>key = 1, node_value = 10, accessTime = 5\<rparr>] \<and>
   getEvictionCount (put 7 2 21
      \<lparr>nodeList_m = [\<lparr>key = 1 :: nat, node_value = 10 :: nat, accessTime = 5\<rparr>,
                     \<lparr>key = 2, node_value = 20, accessTime = 4\<rparr>],
       hashMap_m = {1, 2}, capacity_m = 2, currentSize_m = 2,
       hitCount_m = 0, missCount_m = 0, evictionCount_m = 0\<rparr>) = 0"
proof -
  let ?c = "\<lparr>nodeList_m = [\<lparr>key = 1 :: nat, node_value = 10 :: nat, accessTime = 5\<rparr>,
                          \<lparr>key = 2, node_value = 20, accessTime = 4\<rparr>],
            hashMap_m = {1, 2}, capacity_m = 2, currentSize_m = 2,
            hitCount_m = 0, missCount_m = 0, evictionCount_m = 0\<rparr>"
  have inv: "lru_inv ?c"
    by (simp add: lru_inv_def)
  from put_moves_or_inserts [OF inv, of 3 7 30] put_moves_or_inserts [OF inv, of 2 7 21] inv
  show ?thesis
    by (simp add: contains_def size_of_def capacity_def getEvictionCount_def)
qed

theorem lru_size_within_capacity_witness:
  "(\<exists>c. run_ops [Put 1 (1 :: nat) (10 :: nat), Put 2 2 20, Get 3 1 0, Remove 2, Put 4 3 30, Resize 0, Clear]
          (LRUCache_new 0) = Some c \<and>
        size_of c \<le> capacity c \<and> 1 \<le> capacity c) \<and>
   map_option (\<lambda>c. (nodeList_m c, size_of c, capacity c, getEvictionCount c))
     (run_ops [Put 1 (1 :: nat) (10 :: nat), Put 2 2 20, Get 3 2 0, Remove 7, Put 4 3 30] (LRUCache_new 0)) =
     Some ([\<lparr>key = 3, node_value = 30, accessTime = 4\<rparr>], 1, 1, 2)"
proof -
  have "map_option (\<lambda>c. (nodeList_m c, size_of c, capacity c, getEvictionCount c))
     (run_ops [Put 1 (1 :: nat) (10 :: nat), Put 2 2 20, Get 3 2 0, Remove 7, Put 4 3 30] (LRUCache_new 0)) =
     Some ([\<lparr>key = 3, node_value = 30, accessTime = 4\<rparr>], 1, 1, 2)"
    by code_simp
  with lru_size_within_capacity
    [of "[Put 1 (1 :: nat) (10 :: nat), Put 2 2 20, Get 3 1 0, Remove 2, Put 4 3 30, Resize 0, Clear]" 0]
  show ?thesis by blast
qed

section \<open>Instant search\<close>

lemma search_loop_eq:
  "length results < 100 \<Longrightarrow>
   search_loop q files results =
     take 100 (results @ map path (filter (\<lambda>f. find_str (lowerName f) q \<noteq> None) files))"
proof (induction files arbitrary: results)
  case Nil
  then show ?case by simp
next
  case (Cons f files)
  show ?case
  proof (cases "find_str (lowerName f) q \<noteq> None")
    case False
    with Cons show ?thesis by simp
  next
    case True
    show ?thesis
    proof (cases "length (results @ [path f]) \<ge> 100")
      case True
      with \<open>length results < 100\<close> have "length results = 99" by simp
      with \<open>find_str (lowerName f) q \<noteq> None\<close> True show ?thesis by (simp add: Let_def)
    next
      case False
      then have "length (results @ [path f]) < 100" by simp
      from Cons.IH [OF this] \<open>find_str (lowerName f) q \<noteq> None\<close> False
      show ?thesis by (simp add: Let_def)
    qed
  qed
qed

text \<open>
  C10: \<open>SearchInstant\<close> returns at most 100 paths, namely the paths of the first 100
  indexed files whose lower-cased name contains the lower-cased query, and the empty list
  for the empty query, whatever the index holds.
\<close>

theorem SearchInstant_at_most_100:
  "length (SearchInstant q e) \<le> 100 \<and>
   SearchInstant [] e = [] \<and>
   SearchInstant q e =
     (if q = [] then []
      else take 100 (map path (filter (\<lambda>f. find_str (lowerName f) (map tolower_c q) \<noteq> None) (m_fileIndex e))))"
  by (simp add: SearchInstant_def search_loop_eq)

theorem SearchInstant_at_most_100_witness:
  "length (SearchInstant ''Re''
     \<lparr>m_fileIndex = replicate 150 \<lparr>path = ''C:/docs/report.txt'', name = ''Report.txt'', lowerName = ''report.txt'', fi_size = 12\<rparr>,
      m_indexedFiles = 150, m_isIndexing = False, m_shouldStop = False\<rparr>) = 100"
proof -
  have "find_str ''report.txt'' (map tolower_c ''Re'') \<noteq> None"
    by code_simp
  then show ?thesis
    using SearchInstant_at_most_100 [of "''Re''"
      "\<lparr>m_fileIndex = replicate 150 \<lparr>path = ''C:/docs/report.txt'', name = ''Report.txt'', lowerName = ''report.txt'', fi_size = 12\<rparr>,
      m_indexedFiles = 150, m_isIndexing = False, m_shouldStop = False\<rparr>"]
    by simp
qed

section \<open>Directories the crawl passes over\<close>

lemma may_recurse_iff:
  "may_recurse attrs fname \<longleftrightarrow>
     attrs AND FILE_ATTRIBUTE_SYSTEM = 0 \<and> attrs AND FILE_ATTRIBUTE_HIDDEN = 0 \<and>
     fname \<notin> set system_roots"
  by (auto simp: may_recurse_def system_roots_def)

lemma index_entries_stopped: "m_shouldStop e \<Longrightarrow> index_entries dir entries e = e"
  by (cases entries; cases "hd entries") auto

text \<open>
  C6: an entry named \<open>.\<close> or \<open>..\<close>, and a directory that is marked system or hidden or
  whose name is one of the listed system roots, is passed over: the crawl of a listing
  that contains it gives what the crawl of the listing without it gives, whatever lies in
  the directory. So a directory is entered only if it is neither system nor hidden and its
  name is none of the listed ones.
\<close>

theorem excluded_entry_skipped:
  assumes "fname = ''.'' \<or> fname = ''..'' \<or>
           (attrs AND FILE_ATTRIBUTE_DIRECTORY \<noteq> 0 \<and>
            (attrs AND FILE_ATTRIBUTE_SYSTEM \<noteq> 0 \<or> attrs AND FILE_ATTRIBUTE_HIDDEN \<noteq> 0 \<or>
             fname \<in> set system_roots))"
  shows "index_entries dir (before @ FindData fname attrs sizeHigh sizeLow sub # rest) e =
         index_entries dir (before @ rest) e"
proof (induction before arbitrary: e)
  case Nil
  from assms show ?case
    by (cases "m_shouldStop e") (auto simp: may_recurse_iff index_entries_stopped)
next
  case (Cons b before)
  then show ?case
    by (cases b) (simp add: Let_def)
qed


theorem excluded_entry_skipped_witness:
  "index_entries ''C:''
     ([FindData ''a.txt'' 0x20 0 5 None] @
      FindData ''Windows'' 0x10 0 0 (Some [FindData ''w.dll'' 0x20 0 9 None]) #
      [FindData ''docs'' 0x10 0 0 (Some [FindData ''..'' 0x10 0 0 None, FindData ''r.md'' 0x20 0 7 None])])
     \<lparr>m_fileIndex = [], m_indexedFiles = 0, m_isIndexing = True, m_shouldStop = False\<rparr> =
   index_entries ''C:''
     ([FindData ''a.txt'' 0x20 0 5 None] @
      [FindData ''docs'' 0x10 0 0 (Some [FindData ''..'' 0x10 0 0 None, FindData ''r.md'' 0x20 0 7 None])])
     \<lparr>m_fileIndex = [], m_indexedFiles = 0, m_isIndexing = True, m_shouldStop = False\<rparr> \<and>
   map name (m_fileIndex (index_entries ''C:''
     ([FindData ''a.txt'' 0x20 0 5 None] @
      FindData ''Windows'' 0x10 0 0 (Some [FindData ''w.dll'' 0x20 0 9 None]) #
      [FindData ''docs'' 0x10 0 0 (Some [FindData ''..'' 0x10 0 0 None, FindData ''r.md'' 0x20 0 7 None])])
     \<lparr>m_fileIndex = [], m_indexedFiles = 0, m_isIndexing = True, m_shouldStop = False\<rparr>)) =
     [''a.txt'', ''r.md'']"
proof -
  have excl: "''Windows'' = ''.'' \<or> ''Windows'' = ''..'' \<or>
      ((0x10 :: 32 word) AND FILE_ATTRIBUTE_DIRECTORY \<noteq> 0 \<and>
       ((0x10 :: 32 word) AND FILE_ATTRIBUTE_SYSTEM \<noteq> 0 \<or> (0x10 :: 32 word) AND FILE_ATTRIBUTE_HIDDEN \<noteq> 0 \<or>
        ''Windows'' \<in> set system_roots))"
    by (simp add: FILE_ATTRIBUTE_DIRECTORY_def system_roots_def)
  have run: "map name (m_fileIndex (index_entries ''C:''
     ([FindData ''a.txt'' 0x20 0 5 None] @
      [FindData ''docs'' 0x10 0 0 (Some [FindData ''..'' 0x10 0 0 None, FindData ''r.md'' 0x20 0 7 None])])
     \<lparr>m_fileIndex = [], m_indexedFiles = 0, m_isIndexing = True, m_shouldStop = False\<rparr>)) =
     [''a.txt'', ''r.md'']"
    by code_simp
  from excluded_entry_skipped [OF excl, of "''C:''" "[FindData ''a.txt'' 0x20 0 5 None]" 0 0
      "Some [FindData ''w.dll'' 0x20 0 9 None]"
      "[FindData ''docs'' 0x10 0 0 (Some [FindData ''..'' 0x10 0 0 None, FindData ''r.md'' 0x20 0 7 None])]"
      "\<lparr>m_fileIndex = [], m_indexedFiles = 0, m_isIndexing = True, m_shouldStop = False\<rparr>"]
    run
  show ?thesis by simp
qed

end
